theory Spec2Isabelle
  imports Main "HOL-Library.Sublist"
begin

section \<open>Data model (\<^verbatim>\<open>types.ts\<close>)\<close>

text \<open>
  JavaScript numbers are modelled as unbounded integers (\<open>int\<close>): every number the
  delivery pipeline computes with is a count, a size, an attempt index or a delay in
  milliseconds. Non-integral numbers and \<open>NaN\<close> are outside the model.

  An \<open>AgentEvent\<close> carries its identifier, the agent and task it belongs to and its
  latency. The pipeline reads \<open>event_id\<close> only; the remaining fields of the interface
  (framework, status and the optional metrics) are payload that is handed to the network
  unchanged, and live in the record's extension slot.
\<close>

datatype Framework = langchain | superagi | crewai | mcp | http | custom

record AgentEvent =
  event_id :: string
  agent_id :: string
  task_id :: string
  latency_ms :: int

text \<open>
  \<open>BatchResult\<close>: the counts and the optional per-event rejection list, each entry a
  pair \<open>(event_id, error)\<close>.
\<close>

record BatchResult =
  accepted :: int
  rejected :: int
  errors :: "(string \<times> string) list option"

section \<open>The event queue (\<^verbatim>\<open>storage.ts\<close>, class \<open>MemoryQueueStorage\<close>)\<close>

record MemoryQueueStorage =
  queue :: "AgentEvent list"
  maxSize :: int

text \<open>The constructor: \<^verbatim>\<open>constructor(maxSize: number = 10000)\<close>.\<close>

definition MemoryQueueStorage_new :: "int option \<Rightarrow> MemoryQueueStorage" where
  "MemoryQueueStorage_new m =
     \<lparr>queue = [], maxSize = (case m of None \<Rightarrow> 10000 | Some n \<Rightarrow> n)\<rparr>"

text \<open>\<^verbatim>\<open>createQueueStorage()\<close> always builds a memory queue of the default capacity.\<close>

definition createQueueStorage :: MemoryQueueStorage where
  "createQueueStorage = MemoryQueueStorage_new None"

text \<open>
  \<^verbatim>\<open>Array.prototype.shift\<close> removes the first element and does nothing on an empty
  array, which is what \<open>tl\<close> does (\<open>tl [] = []\<close>).
\<close>

definition storage_push :: "MemoryQueueStorage \<Rightarrow> AgentEvent \<Rightarrow> MemoryQueueStorage" where
  "storage_push s event =
     (let s1 = (if int (length (queue s)) \<ge> maxSize s then s\<lparr>queue := tl (queue s)\<rparr> else s)
      in s1\<lparr>queue := queue s1 @ [event]\<rparr>)"

definition storage_shift :: "MemoryQueueStorage \<Rightarrow> AgentEvent option \<times> MemoryQueueStorage" where
  "storage_shift s =
     (case queue s of [] \<Rightarrow> (None, s) | e # es \<Rightarrow> (Some e, s\<lparr>queue := es\<rparr>))"

text \<open>
  \<^verbatim>\<open>Array.prototype.slice(0, end)\<close>: a negative \<open>end\<close> counts from the end of the
  array (and is clamped at 0), a non-negative one is clamped at the length.
\<close>

definition slice0 :: "'a list \<Rightarrow> int \<Rightarrow> 'a list" where
  "slice0 xs end = (if end < 0 then take (nat (int (length xs) + end)) xs else take (nat end) xs)"

text \<open>
  \<open>peek\<close> returns its result together with the storage it leaves behind, so that the
  absence of a mutation is a statement about the model and not a convention.
\<close>

definition storage_peek :: "MemoryQueueStorage \<Rightarrow> int \<Rightarrow> AgentEvent list \<times> MemoryQueueStorage" where
  "storage_peek s count = (slice0 (queue s) count, s)"

definition storage_remove :: "MemoryQueueStorage \<Rightarrow> string list \<Rightarrow> MemoryQueueStorage" where
  "storage_remove s eventIds =
     (let idsSet = set eventIds
      in s\<lparr>queue := filter (\<lambda>event. event_id event \<notin> idsSet) (queue s)\<rparr>)"

definition storage_size :: "MemoryQueueStorage \<Rightarrow> int" where
  "storage_size s = int (length (queue s))"

definition storage_clear :: "MemoryQueueStorage \<Rightarrow> MemoryQueueStorage" where
  "storage_clear s = s\<lparr>queue := []\<rparr>"

text \<open>A sequence of \<open>push\<close> calls, oldest first.\<close>

definition push_all :: "MemoryQueueStorage \<Rightarrow> AgentEvent list \<Rightarrow> MemoryQueueStorage" where
  "push_all s events = foldl storage_push s events"

section \<open>The retry executor (\<^verbatim>\<open>utils/retry.ts\<close>)\<close>

text \<open>
  What JavaScript code can throw: an \<open>Error\<close> instance, of which the pipeline reads
  \<open>code\<close>, \<open>status\<close> and \<open>name\<close> (absent properties are \<open>None\<close>);
  \<open>undefined\<close>; or a primitive value, kept as its \<^verbatim>\<open>String(v)\<close> rendering.
\<close>

datatype message = Text string | Http_message int string

record js_error =
  code :: "string option"
  status :: "int option"
  name :: string
  message :: message

datatype thrown = Error_instance js_error | Undefined_value | Primitive string

definition new_Error :: "message \<Rightarrow> js_error" where
  "new_Error m = \<lparr>code = None, status = None, name = ''Error'', message = m\<rparr>"

text \<open>\<^verbatim>\<open>error instanceof Error ? error : new Error(String(error))\<close>\<close>

fun toError :: "thrown \<Rightarrow> js_error" where
  "toError (Error_instance e) = e"
| "toError Undefined_value = new_Error (Text ''undefined'')"
| "toError (Primitive s) = new_Error (Text s)"

text \<open>
  \<open>isRetryableError(error: any)\<close>. Reading a property of \<open>undefined\<close> throws a
  \<open>TypeError\<close>; reading one of a primitive yields \<open>undefined\<close>, which fails every test.
\<close>

definition TypeError :: js_error where
  "TypeError = \<lparr>code = None, status = None, name = ''TypeError'',
                 message = Text ''Cannot read properties of undefined''\<rparr>"

fun isRetryableError :: "thrown \<Rightarrow> thrown + bool" where
  "isRetryableError (Error_instance error) = Inr
     (if code error = Some ''ECONNREFUSED'' \<or> code error = Some ''ETIMEDOUT'' then True
      else if (case status error of None \<Rightarrow> False
               | Some st \<Rightarrow> st = 429 \<or> (st \<ge> 500 \<and> st < 600)) then True
      else if name error = ''NetworkError'' \<or> name error = ''TimeoutError'' then True
      else False)"
| "isRetryableError Undefined_value = Inl (Error_instance TypeError)"
| "isRetryableError (Primitive s) = Inr False"

record RetryBase =
  maxRetries :: int
  retryDelay :: int

record RetryOptions = RetryBase +
  maxDelay :: "int option"
  onRetry :: bool

text \<open>
  The observable effects of the pipeline, in the order they happen: an invocation of the
  retried operation (with its attempt index), a call of the \<open>onRetry\<close> hook (with its
  arguments), a \<^verbatim>\<open>setTimeout\<close> wait (with its delay in ms), and a call of the
  batcher's \<open>onError\<close> observer. The hooks are observers: a supplied hook is a
  \<open>True\<close> flag and its calls are recorded.
\<close>

datatype effect =
    Call_fn nat
  | OnRetry js_error int
  | Sleep int
  | OnError js_error "AgentEvent list"

text \<open>\<^verbatim>\<open>Math.min(retryDelay * Math.pow(2, attempt), maxDelay)\<close>, with
  \<^verbatim>\<open>maxDelay = 30000\<close> when the option is absent.\<close>

definition backoff_delay :: "'x RetryOptions_scheme \<Rightarrow> nat \<Rightarrow> int" where
  "backoff_delay options attempt =
     min (retryDelay options * 2 ^ attempt) (case maxDelay options of None \<Rightarrow> 30000 | Some d \<Rightarrow> d)"

text \<open>
  \<open>withRetry(fn, options)\<close>. The operation \<open>fn\<close> takes no argument and is called
  once per attempt, so it is given as the outcome of its call at each attempt index.
  The loop variable \<open>attempt\<close> and the variable \<open>lastError\<close> (unassigned, hence
  \<open>None\<close>, until the first failure) are the loop's state. The result comes with the
  effects in order.
\<close>

function withRetry_loop ::
  "(nat \<Rightarrow> thrown + 'a) \<Rightarrow> 'x RetryOptions_scheme \<Rightarrow> nat \<Rightarrow> js_error option
     \<Rightarrow> (thrown + 'a) \<times> effect list" where
  "withRetry_loop fn options attempt lastError =
     (if int attempt \<le> maxRetries options then
        (case fn attempt of
           Inr v \<Rightarrow> (Inr v, [Call_fn attempt])
         | Inl error \<Rightarrow>
             (if int attempt = maxRetries options
              then (Inl (Error_instance (toError error)), [Call_fn attempt])
              else (case withRetry_loop fn options (Suc attempt) (Some (toError error)) of
                      (r, rest) \<Rightarrow>
                        (r, [Call_fn attempt]
                            @ (if onRetry options then [OnRetry (toError error) (int attempt + 1)] else [])
                            @ [Sleep (backoff_delay options attempt)]
                            @ rest))))
      else (Inl (case lastError of None \<Rightarrow> Undefined_value | Some e \<Rightarrow> Error_instance e), []))"
  by pat_completeness auto
termination
  by (relation "measure (\<lambda>(fn, options, attempt, lastError). nat (maxRetries options + 1 - int attempt))")
     auto

definition withRetry ::
  "(nat \<Rightarrow> thrown + 'a) \<Rightarrow> 'x RetryOptions_scheme \<Rightarrow> (thrown + 'a) \<times> effect list" where
  "withRetry fn options = withRetry_loop fn options 0 None"

text \<open>Projections of an effect list.\<close>

fun sleeps :: "effect list \<Rightarrow> int list" where
  "sleeps [] = []"
| "sleeps (Sleep d # es) = d # sleeps es"
| "sleeps (_ # es) = sleeps es"

fun calls :: "effect list \<Rightarrow> nat list" where
  "calls [] = []"
| "calls (Call_fn k # es) = k # calls es"
| "calls (_ # es) = calls es"

fun is_OnRetry :: "effect \<Rightarrow> bool" where
  "is_OnRetry (OnRetry _ _) = True"
| "is_OnRetry _ = False"


text \<open>Every wait is directly preceded by a call of the hook.\<close>

fun hook_before_each_sleep :: "effect list \<Rightarrow> bool" where
  "hook_before_each_sleep [] = True"
| "hook_before_each_sleep (OnRetry e k # Sleep d # es) = hook_before_each_sleep es"
| "hook_before_each_sleep (Sleep d # es) = False"
| "hook_before_each_sleep (_ # es) = hook_before_each_sleep es"

text \<open>
  The schedule in the words of the specification, for comparison with the code: each of
  \<open>n\<close> failed attempts, starting at \<open>attempt\<close>, is an invocation, then the
  \<open>onRetry\<close> hook with the error and the 1-based attempt number, then a wait of
  \<open>min(initialDelay * 2^attempt, maxDelay)\<close>.
\<close>

fun spec_retry_rounds :: "'x RetryOptions_scheme \<Rightarrow> (nat \<Rightarrow> js_error) \<Rightarrow> nat \<Rightarrow> nat \<Rightarrow> effect list" where
  "spec_retry_rounds options errs attempt 0 = []"
| "spec_retry_rounds options errs attempt (Suc n) =
     [Call_fn attempt]
     @ (if onRetry options then [OnRetry (errs attempt) (int attempt + 1)] else [])
     @ [Sleep (min (retryDelay options * 2 ^ attempt) (case maxDelay options of None \<Rightarrow> 30000 | Some d \<Rightarrow> d))]
     @ spec_retry_rounds options errs (Suc attempt) n"

text \<open>
  The error that the senders throw for a response that is not ok:
  \<^verbatim>\<open>new Error(`HTTP ${status}: ${statusText}`)\<close> with its \<open>status\<close> property set.
\<close>

definition http_error :: "int \<Rightarrow> string \<Rightarrow> thrown" where
  "http_error st txt = Error_instance ((new_Error (Http_message st txt))\<lparr>status := Some st\<rparr>)"

section \<open>The batcher (\<^verbatim>\<open>batcher.ts\<close>, class \<open>EventBatcher\<close>)\<close>

text \<open>
  The tunables shared by the client's resolved configuration and \<open>BatcherConfig\<close>.
  \<open>BatcherConfig\<close> holds the storage object, so the queue is part of the batcher's
  state; \<open>onError\<close> says whether an error observer was supplied. The logger only
  prints and is left out.
\<close>

record Tunables = RetryBase +
  endpoint :: string
  apiKey :: string
  batchSize :: int
  flushInterval :: int

record BatcherConfig = Tunables +
  storage :: MemoryQueueStorage
  onError :: bool

record EventBatcher =
  config :: BatcherConfig
  flushTimer :: bool
  isProcessing :: bool
  isStopped :: bool

text \<open>The constructor stores the configuration and starts the interval timer.\<close>

definition startAutoFlush :: "EventBatcher \<Rightarrow> EventBatcher" where
  "startAutoFlush b = b\<lparr>flushTimer := True\<rparr>"

definition EventBatcher_new :: "BatcherConfig \<Rightarrow> EventBatcher" where
  "EventBatcher_new cfg =
     startAutoFlush \<lparr>config = cfg, flushTimer = False, isProcessing = False, isStopped = False\<rparr>"

definition set_storage :: "EventBatcher \<Rightarrow> MemoryQueueStorage \<Rightarrow> EventBatcher" where
  "set_storage b s = b\<lparr>config := (config b)\<lparr>storage := s\<rparr>\<rparr>"

abbreviation pending_events :: "EventBatcher \<Rightarrow> AgentEvent list" where
  "pending_events b \<equiv> queue (storage (config b))"

text \<open>
  The network, seen from one \<open>sendBatch\<close>: what the \<open>k\<close>-th \<^verbatim>\<open>fetch\<close> of the
  batch does. It rejects (connection failure, timeout) or resolves to a response with an
  HTTP status, a status text and the outcome of \<^verbatim>\<open>response.json()\<close>.
\<close>

datatype fetch_outcome =
    Fetch_rejected thrown
  | Fetch_response int string "thrown + BatchResult"

text \<open>The operation that \<open>sendBatch\<close> hands to \<open>withRetry\<close>;
  \<^verbatim>\<open>response.ok\<close> is a status in 200..299.\<close>

fun sendBatch_fn :: "fetch_outcome \<Rightarrow> thrown + BatchResult" where
  "sendBatch_fn (Fetch_rejected t) = Inl t"
| "sendBatch_fn (Fetch_response st statusText body) =
     (if \<not> (200 \<le> st \<and> st \<le> 299)
      then Inl (http_error st statusText)
      else body)"

definition sendBatch ::
  "EventBatcher \<Rightarrow> AgentEvent list \<Rightarrow> (nat \<Rightarrow> fetch_outcome) \<Rightarrow> (thrown + BatchResult) \<times> effect list" where
  "sendBatch b events net =
     withRetry (\<lambda>k. sendBatch_fn (net k))
       \<lparr>maxRetries = maxRetries (config b), retryDelay = retryDelay (config b),
        maxDelay = None, onRetry = True\<rparr>"

text \<open>
  The accepted identifiers: the batch events for which
  \<^verbatim>\<open>result.errors?.find(e => e.event_id === events[index].event_id)\<close> finds nothing.
\<close>

definition successfulIds :: "AgentEvent list \<Rightarrow> BatchResult \<Rightarrow> string list" where
  "successfulIds events result =
     map event_id
       (filter (\<lambda>ev. (case errors result of None \<Rightarrow> True
                       | Some errs \<Rightarrow> find (\<lambda>e. fst e = event_id ev) errs = None)) events)"

text \<open>
  The identifiers that a delivery outcome names as rejected, in the words of the
  specification: those in the per-event list of \<open>(identifier, error)\<close> pairs.
\<close>

definition rejectedIds :: "BatchResult \<Rightarrow> string set" where
  "rejectedIds result = (case errors result of None \<Rightarrow> {} | Some errs \<Rightarrow> set (map fst errs))"

text \<open>
  \<open>processBatch\<close> after its \<^verbatim>\<open>await storage.peek(batchSize)\<close>: \<open>events\<close> is the
  snapshot that \<open>peek\<close> returned, \<open>b\<close> the batcher as it is when the function goes on.
\<close>

definition processBatch_resume ::
  "EventBatcher \<Rightarrow> AgentEvent list \<Rightarrow> (nat \<Rightarrow> fetch_outcome)
     \<Rightarrow> (thrown + unit) \<times> EventBatcher \<times> effect list" where
  "processBatch_resume b events net =
     (if length events = 0 then (Inr (), b, [])
      else
        (case sendBatch b events net of
           (Inr result, tr) \<Rightarrow>
             (Inr (), set_storage b (storage_remove (storage (config b)) (successfulIds events result)), tr)
         | (Inl error, tr) \<Rightarrow>
             (let err = toError error in
              if onError (config b) then
                (case isRetryableError error of
                   Inl e \<Rightarrow> (Inl e, b, tr @ [OnError err events])
                 | Inr retryable \<Rightarrow>
                     (if \<not> retryable
                      then (Inr (), set_storage b (storage_remove (storage (config b)) (map event_id events)),
                            tr @ [OnError err events])
                      else (Inr (), b, tr @ [OnError err events])))
              else (Inl (Error_instance err), b, tr))))"

definition processBatch ::
  "EventBatcher \<Rightarrow> (nat \<Rightarrow> fetch_outcome) \<Rightarrow> (thrown + unit) \<times> EventBatcher \<times> effect list" where
  "processBatch b net =
     (case storage_peek (storage (config b)) (batchSize (config b)) of
        (events, s) \<Rightarrow> processBatch_resume (set_storage b s) events net)"

text \<open>
  \<open>flush()\<close> runs without suspension up to the \<open>await\<close> inside
  \<open>processBatch\<close>: the guard, the assignment of \<open>isProcessing\<close> and the call of
  \<open>peek\<close>. \<open>flush_begin\<close> is that part (\<open>None\<close> when the guard returns at once),
  \<open>flush_resume\<close> is the rest, with the \<^verbatim>\<open>finally\<close> block. \<open>flush\<close> is a
  whole call during which nothing else runs.
\<close>

definition flush_begin :: "EventBatcher \<Rightarrow> (EventBatcher \<times> AgentEvent list) option" where
  "flush_begin b =
     (if isProcessing b \<or> isStopped b then None
      else (let b1 = b\<lparr>isProcessing := True\<rparr> in
            case storage_peek (storage (config b1)) (batchSize (config b1)) of
              (events, s) \<Rightarrow> Some (set_storage b1 s, events)))"

definition flush_resume ::
  "EventBatcher \<Rightarrow> AgentEvent list \<Rightarrow> (nat \<Rightarrow> fetch_outcome)
     \<Rightarrow> (thrown + unit) \<times> EventBatcher \<times> effect list" where
  "flush_resume b events net =
     (case processBatch_resume b events net of
        (r, b2, tr) \<Rightarrow> (r, b2\<lparr>isProcessing := False\<rparr>, tr))"

definition flush ::
  "EventBatcher \<Rightarrow> (nat \<Rightarrow> fetch_outcome) \<Rightarrow> (thrown + unit) \<times> EventBatcher \<times> effect list" where
  "flush b net =
     (if isProcessing b \<or> isStopped b then (Inr (), b, [])
      else (case processBatch (b\<lparr>isProcessing := True\<rparr>) net of
              (r, b2, tr) \<Rightarrow> (r, b2\<lparr>isProcessing := False\<rparr>, tr)))"

text \<open>
  \<open>add(event)\<close>. The call \<^verbatim>\<open>this.flush()\<close> is not awaited: \<open>add\<close> runs
  \<open>flush\<close> up to its first suspension and returns. The third component of the result is
  the flush that \<open>add\<close> left suspended, with its snapshot.
\<close>

definition stopped_error :: js_error where
  "stopped_error = new_Error (Text ''Batcher has been stopped'')"

definition add ::
  "EventBatcher \<Rightarrow> AgentEvent \<Rightarrow> (thrown + unit) \<times> EventBatcher \<times> AgentEvent list option" where
  "add b event =
     (if isStopped b then (Inl (Error_instance stopped_error), b, None)
      else
        (let b1 = set_storage b (storage_push (storage (config b)) event);
             size = storage_size (storage (config b1))
         in if size \<ge> batchSize (config b1)
            then (case flush_begin b1 of
                    None \<Rightarrow> (Inr (), b1, None)
                  | Some (b2, events) \<Rightarrow> (Inr (), b2, Some events))
            else (Inr (), b1, None)))"

definition stop ::
  "EventBatcher \<Rightarrow> (nat \<Rightarrow> fetch_outcome) \<Rightarrow> (thrown + unit) \<times> EventBatcher \<times> effect list" where
  "stop b net =
     (let b1 = b\<lparr>isStopped := True\<rparr>;
          b2 = (if flushTimer b1 then b1\<lparr>flushTimer := False\<rparr> else b1)
      in flush b2 net)"

text \<open>
  Interleavings. JavaScript runs one task at a time and switches at an \<open>await\<close>. The
  tasks of a batcher are: a caller's \<open>add\<close>; a call of \<open>flush()\<close> by the timer or a
  caller, which runs up to its suspension; the continuation of a suspended flush, when
  the network has answered; and \<open>stop()\<close>. An \<open>add\<close> is one task: its awaits
  are on the in-memory storage, which answers at once; so is \<open>stop()\<close>, whose
  \<open>flush()\<close> returns at its guard. The system state is the batcher together with the
  snapshots of the suspended flushes.
\<close>

datatype task =
    Task_add AgentEvent
  | Task_flush
  | Task_resume nat "nat \<Rightarrow> fetch_outcome"
  | Task_stop "nat \<Rightarrow> fetch_outcome"

record system =
  batcher :: EventBatcher
  in_flight :: "AgentEvent list list"

fun step :: "system \<Rightarrow> task \<Rightarrow> system" where
  "step sys (Task_add e) =
     (case add (batcher sys) e of
        (r, b, None) \<Rightarrow> sys\<lparr>batcher := b\<rparr>
      | (r, b, Some events) \<Rightarrow> \<lparr>batcher = b, in_flight = in_flight sys @ [events]\<rparr>)"
| "step sys Task_flush =
     (case flush_begin (batcher sys) of
        None \<Rightarrow> sys
      | Some (b, events) \<Rightarrow> \<lparr>batcher = b, in_flight = in_flight sys @ [events]\<rparr>)"
| "step sys (Task_resume i net) =
     (if i < length (in_flight sys)
      then (case flush_resume (batcher sys) (in_flight sys ! i) net of
              (r, b, tr) \<Rightarrow> \<lparr>batcher = b, in_flight = take i (in_flight sys) @ drop (Suc i) (in_flight sys)\<rparr>)
      else sys)"
| "step sys (Task_stop net) =
     (case stop (batcher sys) net of
        (r, b, tr) \<Rightarrow> sys\<lparr>batcher := b\<rparr>)"

definition run :: "system \<Rightarrow> task list \<Rightarrow> system" where
  "run sys tasks = foldl step sys tasks"

definition start :: "BatcherConfig \<Rightarrow> system" where
  "start cfg = \<lparr>batcher = EventBatcher_new cfg, in_flight = []\<rparr>"

text \<open>
  The single-flight invariant of the interleaved system: a flush is suspended exactly
  when \<open>isProcessing\<close> is set, and then it is the only one.
\<close>

definition single_flight :: "system \<Rightarrow> bool" where
  "single_flight sys = (if isProcessing (batcher sys) then length (in_flight sys) = 1 else in_flight sys = [])"

section \<open>The client's constructor (\<^verbatim>\<open>client.ts\<close>)\<close>

text \<open>
  \<open>IdentroConfig\<close> as the caller passes it: every property but \<open>apiKey\<close> is optional.
  The fields are prefixed with \<open>in_\<close> to keep them apart from the resolved ones.
\<close>

record IdentroConfig =
  in_apiKey :: string
  in_endpoint :: "string option"
  in_baseUrl :: "string option"
  in_batchSize :: "int option"
  in_flushInterval :: "int option"
  in_maxRetries :: "int option"
  in_retryDelay :: "int option"
  in_throwOnError :: "bool option"
  in_debug :: "bool option"
  in_agentId :: "string option"
  in_framework :: "Framework option"

record ClientConfig = Tunables +
  baseUrl :: string
  throwOnError :: bool
  debug :: bool
  agentId :: string
  framework :: Framework

record IdentroClient =
  client_config :: ClientConfig
  client_batcher :: EventBatcher

text \<open>
  \<^verbatim>\<open>x || d\<close> takes \<open>d\<close> when \<open>x\<close> is falsy: \<open>undefined\<close>, the number 0, the
  empty string or \<open>false\<close>.
\<close>

fun num_or :: "int option \<Rightarrow> int \<Rightarrow> int" where
  "num_or None d = d"
| "num_or (Some n) d = (if n = 0 then d else n)"

fun str_or :: "string option \<Rightarrow> string \<Rightarrow> string" where
  "str_or None d = d"
| "str_or (Some s) d = (if s = [] then d else s)"

fun bool_or :: "bool option \<Rightarrow> bool \<Rightarrow> bool" where
  "bool_or None d = d"
| "bool_or (Some v) d = (if v then True else d)"

text \<open>
  The constructor. \<open>generated\<close> is the identifier that \<open>generateAgentId()\<close> would
  produce (it reads the clock and a random number).
\<close>

definition api_key_error :: js_error where
  "api_key_error = new_Error (Text ''API key is required'')"

definition IdentroClient_new :: "string \<Rightarrow> IdentroConfig \<Rightarrow> thrown + IdentroClient" where
  "IdentroClient_new generated cfg =
     (if in_apiKey cfg = [] then Inl (Error_instance api_key_error)
      else
        (let c = \<lparr>maxRetries = num_or (in_maxRetries cfg) 3,
                  retryDelay = num_or (in_retryDelay cfg) 1000,
                  endpoint = str_or (in_endpoint cfg) (str_or (in_baseUrl cfg) ''https://api.identro.com''),
                  apiKey = in_apiKey cfg,
                  batchSize = num_or (in_batchSize cfg) 100,
                  flushInterval = num_or (in_flushInterval cfg) 1000,
                  baseUrl = str_or (in_baseUrl cfg) (str_or (in_endpoint cfg) ''https://api.identro.com''),
                  throwOnError = bool_or (in_throwOnError cfg) False,
                  debug = bool_or (in_debug cfg) False,
                  agentId = str_or (in_agentId cfg) generated,
                  framework = (case in_framework cfg of None \<Rightarrow> custom | Some f \<Rightarrow> f)\<rparr>
         in Inr \<lparr>client_config = c,
                 client_batcher = EventBatcher_new
                   \<lparr>maxRetries = maxRetries c, retryDelay = retryDelay c,
                    endpoint = endpoint c, apiKey = apiKey c,
                    batchSize = batchSize c, flushInterval = flushInterval c,
                    storage = createQueueStorage,
                    onError = (if throwOnError c then False else True)\<rparr>\<rparr>))"

section \<open>Sample inputs\<close>

text \<open>The concrete events, operations and configurations that the evaluations below use.\<close>

definition mk_event :: "string \<Rightarrow> AgentEvent" where
  "mk_event i = \<lparr>event_id = i, agent_id = ''agent'', task_id = ''task'', latency_ms = 100\<rparr>"

definition always_503 :: "nat \<Rightarrow> thrown + BatchResult" where
  "always_503 k = Inl (http_error 503 ''Service Unavailable'')"

definition sample_config :: BatcherConfig where
  "sample_config =
     \<lparr>maxRetries = 3, retryDelay = 1000, endpoint = ''https://api.identro.com'', apiKey = ''key'',
      batchSize = 100, flushInterval = 1000, storage = createQueueStorage, onError = True\<rparr>"

definition ok_result :: BatchResult where
  "ok_result = \<lparr>accepted = 1, rejected = 0, errors = None\<rparr>"

definition always_ok :: "nat \<Rightarrow> fetch_outcome" where
  "always_ok k = Fetch_response 200 ''OK'' (Inr ok_result)"

text \<open>
  A running batcher with one event queued: the client's batcher after one \<open>add\<close>;
  and the same with a batch size of 2.
\<close>

definition queued_one :: EventBatcher where
  "queued_one = fst (snd (add (EventBatcher_new sample_config) (mk_event ''a'')))"

definition queued_one_small :: EventBatcher where
  "queued_one_small = queued_one\<lparr>config := (config queued_one)\<lparr>batchSize := 2\<rparr>\<rparr>"

text \<open>
  A batcher with five events queued and a batch size of 5, and a network that accepts the
  batch but names \<open>b\<close> and \<open>d\<close> as rejected.
\<close>

definition five_queued :: EventBatcher where
  "five_queued =
     \<lparr>config = sample_config
        \<lparr>batchSize := 5,
         storage := \<lparr>queue = [mk_event ''a'', mk_event ''b'', mk_event ''c'', mk_event ''d'',
                               mk_event ''e''], maxSize = 10000\<rparr>\<rparr>,
      flushTimer = True, isProcessing = False, isStopped = False\<rparr>"

definition two_rejected :: BatchResult where
  "two_rejected = \<lparr>accepted = 3, rejected = 2,
                    errors = Some [(''b'', ''invalid''), (''d'', ''invalid'')]\<rparr>"

definition reject_b_d :: "nat \<Rightarrow> fetch_outcome" where
  "reject_b_d k = Fetch_response 200 ''OK'' (Inr two_rejected)"


text \<open>
  Client configurations: only the API key; and the same with a negative batch size, flush
  interval and retry count and a retry delay of 0.
\<close>

definition minimal_config :: IdentroConfig where
  "minimal_config =
     \<lparr>in_apiKey = ''key'', in_endpoint = None, in_baseUrl = None, in_batchSize = None,
      in_flushInterval = None, in_maxRetries = None, in_retryDelay = None,
      in_throwOnError = None, in_debug = None, in_agentId = None, in_framework = None\<rparr>"

definition nonpositive_config :: IdentroConfig where
  "nonpositive_config =
     minimal_config\<lparr>in_batchSize := Some (- 5), in_flushInterval := Some (- 1),
                     in_maxRetries := Some (- 2), in_retryDelay := Some 0\<rparr>"

section \<open>Properties of the event queue\<close>

lemma storage_push_maxSize [simp]: "maxSize (storage_push s e) = maxSize s"
  by (simp add: storage_push_def Let_def)

lemma push_all_maxSize [simp]: "maxSize (push_all s es) = maxSize s"
  unfolding push_all_def by (induction es arbitrary: s) simp_all

lemma push_all_Nil [simp]: "push_all s [] = s"
  by (simp add: push_all_def)

lemma push_all_Cons [simp]: "push_all s (e # es) = push_all (storage_push s e) es"
  by (simp add: push_all_def)

lemma push_all_snoc: "push_all s (es @ [e]) = storage_push (push_all s es) e"
  by (simp add: push_all_def)

lemma storage_push_queue:
  "queue (storage_push s e) =
     (if int (length (queue s)) \<ge> maxSize s then tl (queue s) @ [e] else queue s @ [e])"
  by (simp add: storage_push_def Let_def)

lemma storage_push_bounded:
  assumes "1 \<le> maxSize s" and "int (length (queue s)) \<le> maxSize s"
  shows "int (length (queue (storage_push s e))) \<le> maxSize s"
  using assms by (auto simp: storage_push_queue)

lemma push_all_bounded:
  assumes "1 \<le> maxSize s" and "int (length (queue s)) \<le> maxSize s"
  shows "int (length (queue (push_all s es))) \<le> maxSize s"
  using assms
proof (induction es arbitrary: s)
  case Nil
  then show ?case by simp
next
  case (Cons e es)
  have "int (length (queue (storage_push s e))) \<le> maxSize (storage_push s e)"
    using Cons.prems by (simp add: storage_push_bounded)
  with Cons.IH [of "storage_push s e"] Cons.prems show ?case by simp
qed

lemma window_snoc:
  fixes ys :: "'a list"
  assumes "0 < c"
  shows "(if c \<le> length (drop (length ys - c) ys) then tl (drop (length ys - c) ys) @ [e]
          else drop (length ys - c) ys @ [e])
         = drop (length (ys @ [e]) - c) (ys @ [e])"
proof (cases "c \<le> length ys")
  case True
  then have "Suc (length ys) - c = Suc (length ys - c)" by simp
  with True assms show ?thesis by (simp add: tl_drop drop_Suc)
next
  case False
  then show ?thesis by simp
qed

lemma push_all_last:
  assumes "1 \<le> maxSize s" and "int (length (queue s)) \<le> maxSize s"
  shows "queue (push_all s es) =
           drop (length (queue s @ es) - nat (maxSize s)) (queue s @ es)"
  using assms
proof (induction es rule: rev_induct)
  case Nil
  then show ?case by simp
next
  case (snoc e es)
  define ys where "ys = queue s @ es"
  define c where "c = nat (maxSize s)"
  have pos: "0 < c" using snoc.prems(1) by (simp add: c_def)
  have q: "queue (push_all s es) = drop (length ys - c) ys"
    using snoc by (simp add: ys_def c_def)
  have cond: "(maxSize s \<le> int (length (drop (length ys - c) ys)))
                = (c \<le> length (drop (length ys - c) ys))"
    using snoc.prems(1) unfolding c_def by linarith
  have "queue (push_all s (es @ [e])) =
          (if c \<le> length (drop (length ys - c) ys) then tl (drop (length ys - c) ys) @ [e]
           else drop (length ys - c) ys @ [e])"
    unfolding push_all_snoc storage_push_queue q using cond by simp
  also have "\<dots> = drop (length (ys @ [e]) - c) (ys @ [e])"
    using pos by (rule window_snoc)
  finally show ?case by (simp add: ys_def c_def)
qed

text \<open>
  Claim C2. A queue built with a capacity \<open>C\<close> of at least one event never holds more
  than \<open>C\<close> events, whatever is pushed; it holds the last \<open>C\<close> pushed events in
  insertion order (all of them while fewer were pushed), so after \<open>C + k\<close> pushes
  exactly the last \<open>C\<close>; and a push onto a full queue drops the oldest event and
  appends the new one. Capacities are positive numbers in the specification; the queue
  of a client always has the default capacity 10000.
\<close>

theorem capacity_invariant:
  fixes C :: int
  assumes "1 \<le> C"
  shows "storage_size (push_all (MemoryQueueStorage_new (Some C)) es) \<le> C
       \<and> queue (push_all (MemoryQueueStorage_new (Some C)) es) = drop (length es - nat C) es
       \<and> (length es = nat C + k \<longrightarrow>
            queue (push_all (MemoryQueueStorage_new (Some C)) es) = drop k es
          \<and> storage_size (push_all (MemoryQueueStorage_new (Some C)) es) = C)
       \<and> (storage_size (push_all (MemoryQueueStorage_new (Some C)) es) = C \<longrightarrow>
            queue (storage_push (push_all (MemoryQueueStorage_new (Some C)) es) e)
              = tl (queue (push_all (MemoryQueueStorage_new (Some C)) es)) @ [e])"
proof -
  let ?s = "MemoryQueueStorage_new (Some C)"
  have m: "maxSize ?s = C" and q0: "queue ?s = []"
    by (simp_all add: MemoryQueueStorage_new_def)
  have b0: "int (length (queue ?s)) \<le> maxSize ?s"
    using assms by (simp add: m q0)
  have bound: "storage_size (push_all ?s es) \<le> C"
    using push_all_bounded [of ?s es] assms b0 by (simp add: m storage_size_def)
  have last: "queue (push_all ?s es) = drop (length es - nat C) es"
    using push_all_last [of ?s es] assms b0 by (simp add: m q0)
  have exact: "length es = nat C + k \<longrightarrow>
      queue (push_all ?s es) = drop k es \<and> storage_size (push_all ?s es) = C"
    using assms by (auto simp: last storage_size_def)
  have evict: "storage_size (push_all ?s es) = C \<longrightarrow>
      queue (storage_push (push_all ?s es) e) = tl (queue (push_all ?s es)) @ [e]"
    by (simp add: storage_push_queue storage_size_def m)
  from bound last exact evict show ?thesis by blast
qed

theorem capacity_invariant_witness:
  "(1::int) \<le> 2
   \<and> queue (push_all (MemoryQueueStorage_new (Some 2))
        [mk_event ''a'', mk_event ''b'', mk_event ''c''])
     = [mk_event ''b'', mk_event ''c'']
   \<and> storage_size (push_all (MemoryQueueStorage_new (Some 2))
        [mk_event ''a'', mk_event ''b'', mk_event ''c'']) = 2"
  using capacity_invariant [of 2 "[mk_event ''a'', mk_event ''b'', mk_event ''c'']" 1 "mk_event ''d''"]
  by simp

text \<open>
  Claim C9. \<open>peek(n)\<close> leaves the storage as it was, a second \<open>peek(n)\<close> returns what
  the first returned, the result is a prefix of the queue (the oldest events, in FIFO
  order), and for a count \<open>n \<ge> 0\<close> it is the first \<open>n\<close> events, or the whole queue
  when that is shorter. On a queue of capacity \<open>C \<ge> 1\<close> filled by pushes, these are
  the first \<open>n\<close> of the surviving events in the order they were pushed.
\<close>

theorem peek_repeatable:
  "snd (storage_peek s n) = s
   \<and> fst (storage_peek (snd (storage_peek s n)) n) = fst (storage_peek s n)
   \<and> prefix (fst (storage_peek s n)) (queue s)
   \<and> (0 \<le> n \<longrightarrow> fst (storage_peek s n) = take (nat n) (queue s)
                \<and> int (length (fst (storage_peek s n))) = min n (storage_size s))
   \<and> (0 \<le> n \<and> 1 \<le> C \<longrightarrow>
        fst (storage_peek (push_all (MemoryQueueStorage_new (Some C)) es) n)
          = take (nat n) (drop (length es - nat C) es))"
proof -
  have unchanged: "snd (storage_peek s n) = s"
    by (simp add: storage_peek_def)
  then have again: "fst (storage_peek (snd (storage_peek s n)) n) = fst (storage_peek s n)"
    by simp
  have oldest: "prefix (fst (storage_peek s n)) (queue s)"
    by (simp add: storage_peek_def slice0_def take_is_prefix)
  have count: "0 \<le> n \<longrightarrow> fst (storage_peek s n) = take (nat n) (queue s)
                \<and> int (length (fst (storage_peek s n))) = min n (storage_size s)"
    by (auto simp: storage_peek_def slice0_def storage_size_def)
  have pushed: "0 \<le> n \<and> 1 \<le> C \<longrightarrow>
        fst (storage_peek (push_all (MemoryQueueStorage_new (Some C)) es) n)
          = take (nat n) (drop (length es - nat C) es)"
  proof (intro impI, elim conjE)
    assume n: "0 \<le> n" and C: "1 \<le> C"
    let ?s = "MemoryQueueStorage_new (Some C)"
    have "queue (push_all ?s es) = drop (length (queue ?s @ es) - nat (maxSize ?s)) (queue ?s @ es)"
      by (rule push_all_last) (use C in \<open>simp_all add: MemoryQueueStorage_new_def\<close>)
    then have "queue (push_all ?s es) = drop (length es - nat C) es"
      by (simp add: MemoryQueueStorage_new_def)
    then show "fst (storage_peek (push_all ?s es) n) = take (nat n) (drop (length es - nat C) es)"
      using n by (simp add: storage_peek_def slice0_def)
  qed
  from unchanged again oldest count pushed show ?thesis by blast
qed

theorem peek_repeatable_witness:
  "(0::int) \<le> 2 \<and> (1::int) \<le> 3
   \<and> fst (storage_peek \<lparr>queue = [mk_event ''a'', mk_event ''b'', mk_event ''c''], maxSize = 10\<rparr> 2)
       = [mk_event ''a'', mk_event ''b'']
   \<and> snd (storage_peek \<lparr>queue = [mk_event ''a'', mk_event ''b'', mk_event ''c''], maxSize = 10\<rparr> 2)
       = \<lparr>queue = [mk_event ''a'', mk_event ''b'', mk_event ''c''], maxSize = 10\<rparr>
   \<and> fst (storage_peek (push_all (MemoryQueueStorage_new (Some 3))
          [mk_event ''a'', mk_event ''b'', mk_event ''c'', mk_event ''d'']) 2)
       = [mk_event ''b'', mk_event ''c'']"
  using peek_repeatable
    [of "\<lparr>queue = [mk_event ''a'', mk_event ''b'', mk_event ''c''], maxSize = 10\<rparr>" 2 3
        "[mk_event ''a'', mk_event ''b'', mk_event ''c'', mk_event ''d'']"]
  by simp

section \<open>Properties of the retry executor\<close>

declare withRetry_loop.simps [simp del]

lemma sleeps_append [simp]: "sleeps (xs @ ys) = sleeps xs @ sleeps ys"
  by (induction xs rule: sleeps.induct) simp_all

lemma calls_append [simp]: "calls (xs @ ys) = calls xs @ calls ys"
  by (induction xs rule: calls.induct) simp_all

lemma withRetry_loop_past:
  "\<not> int a \<le> maxRetries opts \<Longrightarrow>
   withRetry_loop fn opts a le =
     (Inl (case le of None \<Rightarrow> Undefined_value | Some e \<Rightarrow> Error_instance e), [])"
  by (subst withRetry_loop.simps) simp

lemma withRetry_loop_ok:
  "int a \<le> maxRetries opts \<Longrightarrow> fn a = Inr v \<Longrightarrow>
   withRetry_loop fn opts a le = (Inr v, [Call_fn a])"
  by (subst withRetry_loop.simps) simp

lemma withRetry_loop_last:
  "int a = maxRetries opts \<Longrightarrow> fn a = Inl t \<Longrightarrow>
   withRetry_loop fn opts a le = (Inl (Error_instance (toError t)), [Call_fn a])"
  by (subst withRetry_loop.simps) simp

lemma withRetry_loop_retry:
  "int a < maxRetries opts \<Longrightarrow> fn a = Inl t \<Longrightarrow>
   withRetry_loop fn opts a le =
     (fst (withRetry_loop fn opts (Suc a) (Some (toError t))),
      [Call_fn a] @ (if onRetry opts then [OnRetry (toError t) (int a + 1)] else [])
        @ [Sleep (backoff_delay opts a)]
        @ snd (withRetry_loop fn opts (Suc a) (Some (toError t))))"
  by (subst withRetry_loop.simps) (simp add: case_prod_beta)

lemma withRetry_loop_cases:
  obtains (past) "\<not> int a \<le> maxRetries opts"
  | (ok) v where "int a \<le> maxRetries opts" "fn a = Inr v"
  | (last) t where "int a = maxRetries opts" "fn a = Inl t"
  | (retry) t where "int a < maxRetries opts" "fn a = Inl t"
  by (cases "fn a") force+

lemma retry_sleeps_ex:
  "\<exists>n. sleeps (snd (withRetry_loop fn opts a le)) = map (backoff_delay opts) [a ..< a + n]"
proof (induction fn opts a le rule: withRetry_loop.induct)
  case (1 fn opts a le)
  show ?case
  proof (cases rule: withRetry_loop_cases [where a=a and opts=opts and fn=fn])
    case past
    then show ?thesis by (intro exI [of _ 0]) (simp add: withRetry_loop_past)
  next
    case (ok v)
    then show ?thesis by (intro exI [of _ 0]) (simp add: withRetry_loop_ok)
  next
    case (last t)
    then show ?thesis by (intro exI [of _ 0]) (simp add: withRetry_loop_last)
  next
    case (retry t)
    let ?rest = "snd (withRetry_loop fn opts (Suc a) (Some (toError t)))"
    from "1.IH" [of t] retry obtain n where
      IH: "sleeps ?rest = map (backoff_delay opts) [Suc a ..< Suc a + n]"
      by auto
    have "sleeps (snd (withRetry_loop fn opts a le)) = backoff_delay opts a # sleeps ?rest"
      using retry by (simp add: withRetry_loop_retry)
    also have "\<dots> = map (backoff_delay opts) (a # [Suc a ..< Suc a + n])"
      unfolding IH by simp
    also have "a # [Suc a ..< Suc a + n] = [a ..< a + Suc n]"
      using upt_conv_Cons [of a "a + Suc n"] by simp
    finally show ?thesis by blast
  qed
qed

lemma retry_sleeps:
  "sleeps (snd (withRetry_loop fn opts a le)) =
     map (backoff_delay opts) [a ..< a + length (sleeps (snd (withRetry_loop fn opts a le)))]"
proof -
  obtain n where n: "sleeps (snd (withRetry_loop fn opts a le)) = map (backoff_delay opts) [a ..< a + n]"
    using retry_sleeps_ex by blast
  then have "length (sleeps (snd (withRetry_loop fn opts a le))) = n" by simp
  with n show ?thesis by simp
qed

lemma retry_all_fail:
  assumes "\<forall>k. \<exists>t. fn k = Inl t" and "int a \<le> maxRetries opts"
  shows "fst (withRetry_loop fn opts a le) = Inl (Error_instance (toError (projl (fn (nat (maxRetries opts))))))
       \<and> calls (snd (withRetry_loop fn opts a le)) = [a ..< Suc (nat (maxRetries opts))]
       \<and> sleeps (snd (withRetry_loop fn opts a le)) = map (backoff_delay opts) [a ..< nat (maxRetries opts)]"
  using assms
proof (induction fn opts a le rule: withRetry_loop.induct)
  case (1 fn opts a le)
  obtain t where t: "fn a = Inl t" using "1.prems"(1) by blast
  show ?case
  proof (cases "int a = maxRetries opts")
    case True
    then have "nat (maxRetries opts) = a" by simp
    with True t show ?thesis by (simp add: withRetry_loop_last)
  next
    case False
    with "1.prems" have lt: "int a < maxRetries opts" by simp
    then have lt': "a < nat (maxRetries opts)" by simp
    have IH: "fst (withRetry_loop fn opts (Suc a) (Some (toError t))) = Inl (Error_instance (toError (projl (fn (nat (maxRetries opts))))))
       \<and> calls (snd (withRetry_loop fn opts (Suc a) (Some (toError t)))) = [Suc a ..< Suc (nat (maxRetries opts))]
       \<and> sleeps (snd (withRetry_loop fn opts (Suc a) (Some (toError t)))) = map (backoff_delay opts) [Suc a ..< nat (maxRetries opts)]"
      using "1.IH" [of t] "1.prems" lt t by simp
    show ?thesis
      using IH lt' lt t by (simp add: withRetry_loop_retry upt_conv_Cons)
  qed
qed

lemma retry_hook_result:
  "fst (withRetry_loop fn (opts\<lparr>onRetry := h\<rparr>) a le) = fst (withRetry_loop fn opts a le)
   \<and> filter (\<lambda>e. \<not> is_OnRetry e) (snd (withRetry_loop fn (opts\<lparr>onRetry := h\<rparr>) a le))
       = filter (\<lambda>e. \<not> is_OnRetry e) (snd (withRetry_loop fn opts a le))"
proof (induction fn opts a le rule: withRetry_loop.induct)
  case (1 fn opts a le)
  let ?o = "opts\<lparr>onRetry := h\<rparr>"
  have m: "maxRetries ?o = maxRetries opts" by simp
  have d: "backoff_delay ?o a = backoff_delay opts a" by (simp add: backoff_delay_def)
  show ?case
  proof (cases rule: withRetry_loop_cases [where a=a and opts=opts and fn=fn])
    case past
    then show ?thesis by (simp add: withRetry_loop_past)
  next
    case (ok v)
    then show ?thesis by (simp add: withRetry_loop_ok)
  next
    case (last t)
    then show ?thesis by (simp add: withRetry_loop_last)
  next
    case (retry t)
    have lt: "int a < maxRetries ?o" using retry by simp
    show ?thesis
      using "1.IH" [of t] retry lt
      by (simp add: withRetry_loop_retry d)
  qed
qed

lemma retry_hook_before_sleep:
  "onRetry opts \<Longrightarrow> hook_before_each_sleep (snd (withRetry_loop fn opts a le))"
proof (induction fn opts a le rule: withRetry_loop.induct)
  case (1 fn opts a le)
  show ?case
  proof (cases rule: withRetry_loop_cases [where a=a and opts=opts and fn=fn])
    case past
    then show ?thesis by (simp add: withRetry_loop_past)
  next
    case (ok v)
    then show ?thesis by (simp add: withRetry_loop_ok)
  next
    case (last t)
    then show ?thesis by (simp add: withRetry_loop_last)
  next
    case (retry t)
    then show ?thesis
      using "1.IH" [of t] "1.prems" by (simp add: withRetry_loop_retry)
  qed
qed

lemma retry_all_fail_trace:
  assumes "\<forall>k. fn k = Inl (ts k)" and "int a \<le> maxRetries opts"
  shows "snd (withRetry_loop fn opts a le) =
           spec_retry_rounds opts (\<lambda>k. toError (ts k)) a (nat (maxRetries opts) - a) @ [Call_fn (nat (maxRetries opts))]"
  using assms
proof (induction fn opts a le rule: withRetry_loop.induct)
  case (1 fn opts a le)
  have t: "fn a = Inl (ts a)" using "1.prems"(1) by blast
  show ?case
  proof (cases "int a = maxRetries opts")
    case True
    then have "nat (maxRetries opts) = a" by simp
    with True t show ?thesis by (simp add: withRetry_loop_last)
  next
    case False
    with "1.prems" have lt: "int a < maxRetries opts" by simp
    then have S: "nat (maxRetries opts) - a = Suc (nat (maxRetries opts) - Suc a)" by simp
    have IH: "snd (withRetry_loop fn opts (Suc a) (Some (toError (ts a)))) =
           spec_retry_rounds opts (\<lambda>k. toError (ts k)) (Suc a) (nat (maxRetries opts) - Suc a) @ [Call_fn (nat (maxRetries opts))]"
      using "1.prems" lt t by (intro "1.IH" [of "ts a"]) auto
    show ?thesis
      unfolding S using IH lt t by (simp add: withRetry_loop_retry backoff_delay_def)
  qed
qed

text \<open>
  Claim C10. When the operation fails at every invocation and \<open>maxRetries = m \<ge> 0\<close>,
  \<open>withRetry\<close> invokes it exactly \<open>m + 1\<close> times, at the attempt indices
  \<open>0, \<dots>, m\<close>, and then throws the error of the last invocation (as an \<open>Error\<close>:
  a thrown value that is no \<open>Error\<close> instance is wrapped in one).
\<close>

theorem attempt_count:
  assumes "\<forall>k. \<exists>t. fn k = Inl t" and "0 \<le> maxRetries opts"
  shows "int (length (calls (snd (withRetry fn opts)))) = maxRetries opts + 1
       \<and> calls (snd (withRetry fn opts)) = [0 ..< nat (maxRetries opts) + 1]
       \<and> (\<exists>t. fn (nat (maxRetries opts)) = Inl t
              \<and> fst (withRetry fn opts) = Inl (Error_instance (toError t)))"
proof -
  obtain t where t: "fn (nat (maxRetries opts)) = Inl t" using assms(1) by blast
  have "int 0 \<le> maxRetries opts" using assms(2) by simp
  from retry_all_fail [OF assms(1) this, of None]
  have r: "fst (withRetry fn opts) = Inl (Error_instance (toError t))"
    and c: "calls (snd (withRetry fn opts)) = [0 ..< Suc (nat (maxRetries opts))]"
    by (simp_all add: withRetry_def t)
  have "int (length (calls (snd (withRetry fn opts)))) = maxRetries opts + 1"
    unfolding c using assms(2) by simp
  with r c t show ?thesis by simp
qed

theorem attempt_count_witness:
  "(\<forall>k. \<exists>t. always_503 k = Inl t)
   \<and> calls (snd (withRetry always_503
        \<lparr>maxRetries = 3, retryDelay = 1000, maxDelay = None, onRetry = False\<rparr>)) = [0, 1, 2, 3]
   \<and> fst (withRetry always_503
        \<lparr>maxRetries = 3, retryDelay = 1000, maxDelay = None, onRetry = False\<rparr>)
       = Inl (http_error 503 ''Service Unavailable'')"
  using attempt_count [of always_503
     "\<lparr>maxRetries = 3, retryDelay = 1000, maxDelay = None, onRetry = False\<rparr>"]
  by (simp add: always_503_def http_error_def upt_rec)

lemma backoff_1000:
  assumes "retryDelay opts = 1000" and "maxDelay opts = None"
  shows "map (backoff_delay opts) [0, 1, 2, 3] = [1000, 2000, 4000, 8000]"
    and "backoff_delay opts k \<le> 30000"
  using assms by (simp_all add: backoff_delay_def)

text \<open>
  Claim C5. The waits that \<open>withRetry\<close> requests are, in order,
  \<open>min (retryDelay * 2 ^ attempt) maxDelay\<close> for \<open>attempt = 0, 1, \<dots>\<close> (with
  \<open>maxDelay = 30000\<close> when absent). When every attempt fails and \<open>maxRetries \<ge> 0\<close>,
  the effects are exactly the rounds the specification describes (invoke, fire the hook,
  wait) for the attempts \<open>0, \<dots>, maxRetries - 1\<close>, then the final invocation, and the
  error of that final invocation is thrown. For \<open>retryDelay = 1000\<close> and the default
  cap the first four waits are 1000, 2000, 4000 and 8000 ms and no wait exceeds 30000 ms.
  A supplied hook is called directly before each wait, and supplying it changes neither
  the result nor the other effects.
\<close>

theorem backoff_schedule:
  fixes fn :: "nat \<Rightarrow> thrown + 'a"
  shows
  "sleeps (snd (withRetry fn opts))
     = map (\<lambda>attempt. min (retryDelay opts * 2 ^ attempt)
                          (case maxDelay opts of None \<Rightarrow> 30000 | Some d \<Rightarrow> d))
         [0 ..< length (sleeps (snd (withRetry fn opts)))]
   \<and> ((\<forall>k. fn k = Inl (ts k)) \<and> 0 \<le> maxRetries opts \<longrightarrow>
        snd (withRetry fn opts)
          = spec_retry_rounds opts (\<lambda>k. toError (ts k)) 0 (nat (maxRetries opts))
            @ [Call_fn (nat (maxRetries opts))]
      \<and> fst (withRetry fn opts) = Inl (Error_instance (toError (ts (nat (maxRetries opts))))))
   \<and> (retryDelay opts = 1000 \<and> maxDelay opts = None \<longrightarrow>
        map (backoff_delay opts) [0, 1, 2, 3] = [1000, 2000, 4000, 8000]
      \<and> (\<forall>k. backoff_delay opts k \<le> 30000))
   \<and> (onRetry opts \<longrightarrow> hook_before_each_sleep (snd (withRetry fn opts)))
   \<and> fst (withRetry fn (opts\<lparr>onRetry := h\<rparr>)) = fst (withRetry fn opts)
   \<and> filter (\<lambda>e. \<not> is_OnRetry e) (snd (withRetry fn (opts\<lparr>onRetry := h\<rparr>)))
       = filter (\<lambda>e. \<not> is_OnRetry e) (snd (withRetry fn opts))"
proof -
  have fml: "backoff_delay opts = (\<lambda>attempt. min (retryDelay opts * 2 ^ attempt)
                          (case maxDelay opts of None \<Rightarrow> 30000 | Some d \<Rightarrow> d))"
    by (rule ext) (simp add: backoff_delay_def)
  have A: "sleeps (snd (withRetry fn opts))
     = map (\<lambda>attempt. min (retryDelay opts * 2 ^ attempt)
                          (case maxDelay opts of None \<Rightarrow> 30000 | Some d \<Rightarrow> d))
         [0 ..< length (sleeps (snd (withRetry fn opts)))]"
    using retry_sleeps [of fn opts 0 None] unfolding withRetry_def fml by simp
  have B: "(\<forall>k. fn k = Inl (ts k)) \<and> 0 \<le> maxRetries opts \<longrightarrow>
        snd (withRetry fn opts)
          = spec_retry_rounds opts (\<lambda>k. toError (ts k)) 0 (nat (maxRetries opts))
            @ [Call_fn (nat (maxRetries opts))]
      \<and> fst (withRetry fn opts) = Inl (Error_instance (toError (ts (nat (maxRetries opts)))))"
  proof (intro impI, elim conjE)
    assume f: "\<forall>k. fn k = Inl (ts k)" and m: "0 \<le> maxRetries opts"
    have m0: "int 0 \<le> maxRetries opts" using m by simp
    have ex: "\<forall>k. \<exists>t. fn k = Inl t" using f by blast
    have "snd (withRetry fn opts)
          = spec_retry_rounds opts (\<lambda>k. toError (ts k)) 0 (nat (maxRetries opts))
            @ [Call_fn (nat (maxRetries opts))]"
      using retry_all_fail_trace [OF f m0, of None] by (simp add: withRetry_def)
    moreover have "fst (withRetry fn opts) = Inl (Error_instance (toError (ts (nat (maxRetries opts)))))"
    proof -
      have fe: "fn = (\<lambda>k. Inl (ts k))" using f by (intro ext) simp
      show ?thesis
        using retry_all_fail [OF ex m0, of None] by (simp add: withRetry_def fe)
    qed
    ultimately show "snd (withRetry fn opts)
          = spec_retry_rounds opts (\<lambda>k. toError (ts k)) 0 (nat (maxRetries opts))
            @ [Call_fn (nat (maxRetries opts))]
      \<and> fst (withRetry fn opts) = Inl (Error_instance (toError (ts (nat (maxRetries opts)))))"
      by simp
  qed
  have C: "retryDelay opts = 1000 \<and> maxDelay opts = None \<longrightarrow>
        map (backoff_delay opts) [0, 1, 2, 3] = [1000, 2000, 4000, 8000]
      \<and> (\<forall>k. backoff_delay opts k \<le> 30000)"
    using backoff_1000 [of opts] by blast
  have D: "onRetry opts \<longrightarrow> hook_before_each_sleep (snd (withRetry fn opts))"
    by (simp add: withRetry_def retry_hook_before_sleep)
  have E: "fst (withRetry fn (opts\<lparr>onRetry := h\<rparr>)) = fst (withRetry fn opts)"
    and F: "filter (\<lambda>e. \<not> is_OnRetry e) (snd (withRetry fn (opts\<lparr>onRetry := h\<rparr>)))
       = filter (\<lambda>e. \<not> is_OnRetry e) (snd (withRetry fn opts))"
    using retry_hook_result [where fn=fn and opts=opts and h=h and a=0 and le=None] by (simp_all add: withRetry_def)
  from A B C D E F show ?thesis by blast
qed

theorem backoff_schedule_witness:
  "(\<forall>k. always_503 k = Inl (http_error 503 ''Service Unavailable''))
   \<and> (0::int) \<le> 7
   \<and> sleeps (snd (withRetry always_503
        \<lparr>maxRetries = 7, retryDelay = 1000, maxDelay = None, onRetry = True\<rparr>))
       = [1000, 2000, 4000, 8000, 16000, 30000, 30000]"
  using backoff_schedule [where fn=always_503
     and opts="\<lparr>maxRetries = 7, retryDelay = 1000, maxDelay = None, onRetry = True\<rparr>"
     and ts="\<lambda>k. http_error 503 ''Service Unavailable''" and h=True]
  by (simp add: always_503_def eval_nat_numeral)

section \<open>Properties of the batcher\<close>

lemma set_storage_same [simp]: "set_storage b (storage (config b)) = b"
  by (simp add: set_storage_def)

lemma set_storage_simps [simp]:
  "storage (config (set_storage b s)) = s"
  "isProcessing (set_storage b s) = isProcessing b"
  "isStopped (set_storage b s) = isStopped b"
  "flushTimer (set_storage b s) = flushTimer b"
  "batchSize (config (set_storage b s)) = batchSize (config b)"
  "maxRetries (config (set_storage b s)) = maxRetries (config b)"
  "retryDelay (config (set_storage b s)) = retryDelay (config b)"
  "onError (config (set_storage b s)) = onError (config b)"
  by (simp_all add: set_storage_def)

lemma processBatch_resume_flags:
  "isProcessing (fst (snd (processBatch_resume b events net))) = isProcessing b"
  "isStopped (fst (snd (processBatch_resume b events net))) = isStopped b"
  "flushTimer (fst (snd (processBatch_resume b events net))) = flushTimer b"
  by (simp_all add: processBatch_resume_def Let_def split: prod.splits sum.splits)

lemma flush_begin_None: "(flush_begin b = None) = (isProcessing b \<or> isStopped b)"
  by (simp add: flush_begin_def Let_def storage_peek_def)

lemma flush_begin_Some:
  "\<not> isProcessing b \<Longrightarrow> \<not> isStopped b \<Longrightarrow>
   flush_begin b = Some (b\<lparr>isProcessing := True\<rparr>, slice0 (pending_events b) (batchSize (config b)))"
  by (simp add: flush_begin_def Let_def storage_peek_def set_storage_def)

lemma flush_decompose:
  "flush b net = (case flush_begin b of None \<Rightarrow> (Inr (), b, [])
                  | Some (b1, events) \<Rightarrow> flush_resume b1 events net)"
  by (simp add: flush_def flush_begin_def flush_resume_def processBatch_def Let_def
      storage_peek_def set_storage_def)

lemma flush_noop:
  "isProcessing b \<or> isStopped b \<Longrightarrow> flush b net = (Inr (), b, [])"
  by (simp add: flush_def)

lemma flush_resume_clears: "\<not> isProcessing (fst (snd (flush_resume b events net)))"
  by (simp add: flush_resume_def split: prod.splits)

lemma flush_clears:
  "\<not> isProcessing b \<Longrightarrow> \<not> isProcessing (fst (snd (flush b net)))"
  by (simp add: flush_def split: prod.splits)

lemma stop_eq: "stop b net = (Inr (), b\<lparr>isStopped := True, flushTimer := False\<rparr>, [])"
  by (cases "flushTimer b") (simp_all add: stop_def Let_def flush_def)

lemma add_cases:
  "add b e =
     (if isStopped b then (Inl (Error_instance stopped_error), b, None)
      else if int (length (queue (storage_push (storage (config b)) e))) \<ge> batchSize (config b) \<and> \<not> isProcessing b
      then (Inr (), (set_storage b (storage_push (storage (config b)) e))\<lparr>isProcessing := True\<rparr>,
            Some (slice0 (queue (storage_push (storage (config b)) e)) (batchSize (config b))))
      else (Inr (), set_storage b (storage_push (storage (config b)) e), None))"
  by (simp add: add_def Let_def storage_size_def flush_begin_def storage_peek_def)

lemma step_single_flight: "single_flight sys \<Longrightarrow> single_flight (step sys t)"
proof (cases t)
  case (Task_add e)
  assume "single_flight sys"
  then show ?thesis using Task_add
    by (auto simp: single_flight_def add_cases split: if_splits)
next
  case Task_flush
  assume "single_flight sys"
  then show ?thesis using Task_flush
    by (cases "isProcessing (batcher sys) \<or> isStopped (batcher sys)")
       (auto simp: single_flight_def flush_begin_def storage_peek_def Let_def split: if_splits)
next
  case (Task_resume i net)
  assume "single_flight sys"
  then show ?thesis using Task_resume flush_resume_clears [of "batcher sys" "in_flight sys ! i" net]
    by (auto simp: single_flight_def split: if_splits prod.splits)
next
  case (Task_stop net)
  assume "single_flight sys"
  then show ?thesis using Task_stop
    by (auto simp: single_flight_def stop_eq split: if_splits)
qed

lemma run_single_flight: "single_flight sys \<Longrightarrow> single_flight (run sys tasks)"
  unfolding run_def by (induction tasks arbitrary: sys) (simp_all add: step_single_flight)

lemma start_single_flight: "single_flight (start cfg)"
  by (simp add: single_flight_def start_def EventBatcher_new_def startAutoFlush_def)

lemma queued_one_eq:
  "queued_one = \<lparr>config = sample_config\<lparr>storage := \<lparr>queue = [mk_event ''a''], maxSize = 10000\<rparr>\<rparr>,
                  flushTimer = True, isProcessing = False, isStopped = False\<rparr>"
  by (simp add: queued_one_def add_cases EventBatcher_new_def startAutoFlush_def sample_config_def
      createQueueStorage_def MemoryQueueStorage_new_def storage_push_def set_storage_def)

lemma sendBatch_first_ok:
  assumes "0 \<le> maxRetries (config b)" and "sendBatch_fn (net 0) = Inr res"
  shows "sendBatch b events net = (Inr res, [Call_fn 0])"
  using assms by (simp add: sendBatch_def withRetry_def withRetry_loop_ok)

lemma sendBatch_isProcessing [simp]:
  "sendBatch (b\<lparr>isProcessing := x\<rparr>) events net = sendBatch b events net"
  by (simp add: sendBatch_def)

lemma flush_empty:
  assumes "\<not> isProcessing b" "\<not> isStopped b"
    and "slice0 (pending_events b) (batchSize (config b)) = []"
  shows "flush b net = (Inr (), b, [])"
  using assms
  by (simp add: flush_def processBatch_def storage_peek_def processBatch_resume_def set_storage_def)

lemma flush_success:
  assumes "\<not> isProcessing b" "\<not> isStopped b"
    and "slice0 (pending_events b) (batchSize (config b)) = batch" "batch \<noteq> []"
    and "sendBatch b batch net = (Inr res, tr)"
  shows "flush b net =
     (Inr (), set_storage b (storage_remove (storage (config b)) (successfulIds batch res)), tr)"
  using assms
  by (simp add: flush_def processBatch_def storage_peek_def processBatch_resume_def set_storage_def)


lemma flush_failure_thrown:
  assumes "\<not> isProcessing b" "\<not> isStopped b"
    and "slice0 (pending_events b) (batchSize (config b)) = batch" "batch \<noteq> []"
    and "sendBatch b batch net = (Inl error, tr)"
    and "\<not> onError (config b)"
  shows "flush b net = (Inl (Error_instance (toError error)), b, tr)"
  using assms
  by (simp add: flush_def processBatch_def storage_peek_def processBatch_resume_def set_storage_def
      Let_def)

text \<open>
  Claim C1. \<open>stop()\<close> assigns \<open>isStopped\<close> before it calls \<open>flush()\<close>, and the
  guard of \<open>flush()\<close> returns at once when \<open>isStopped\<close> is set. With one event
  queued, a batch size of 100 and a network that accepts everything, \<open>stop()\<close>
  returns without any network call and the event is still queued; \<open>add\<close> fails
  afterwards, as the claim says; and \<open>flush()\<close> on the same batcher, not stopped,
  empties the queue.
\<close>

theorem stop_skips_final_flush:
  "stop queued_one always_ok = (Inr (), queued_one\<lparr>isStopped := True, flushTimer := False\<rparr>, [])
   \<and> pending_events (fst (snd (stop queued_one always_ok))) = [mk_event ''a'']
   \<and> fst (add (fst (snd (stop queued_one always_ok))) (mk_event ''b'')) = Inl (Error_instance stopped_error)
   \<and> pending_events (fst (snd (flush queued_one always_ok))) = []"
proof -
  have s: "stop queued_one always_ok = (Inr (), queued_one\<lparr>isStopped := True, flushTimer := False\<rparr>, [])"
    by (rule stop_eq)
  have q: "pending_events (fst (snd (stop queued_one always_ok))) = [mk_event ''a'']"
    unfolding s by (simp add: queued_one_eq)
  have a: "fst (add (fst (snd (stop queued_one always_ok))) (mk_event ''b'')) = Inl (Error_instance stopped_error)"
    unfolding s by (simp add: add_cases)
  have sb: "sendBatch queued_one [mk_event ''a''] always_ok = (Inr ok_result, [Call_fn 0])"
    by (rule sendBatch_first_ok) (simp_all add: queued_one_eq sample_config_def always_ok_def)
  have "flush queued_one always_ok =
     (Inr (), set_storage queued_one (storage_remove (storage (config queued_one))
        (successfulIds [mk_event ''a''] ok_result)), [Call_fn 0])"
    by (rule flush_success [OF _ _ _ _ sb])
       (simp_all add: queued_one_eq slice0_def sample_config_def)
  then have f: "pending_events (fst (snd (flush queued_one always_ok))) = []"
    by (simp add: queued_one_eq successfulIds_def ok_result_def storage_remove_def mk_event_def)
  from s q a f show ?thesis by simp
qed

text \<open>
  Claim C6. \<open>flush()\<close> on a batcher that is processing or stopped returns the batcher
  as it was and has no effect, and does not start a flush. A flush that passes the guard
  leaves \<open>isProcessing\<close> cleared whatever the network does, and so does the
  continuation of a suspended flush in whatever state it resumes. In every interleaving
  of \<open>add\<close>, \<open>flush()\<close> calls (by the timer, by a caller, by \<open>add\<close>), flush
  continuations and \<open>stop()\<close>, starting from a new batcher, at most one flush is
  suspended, and one is exactly when \<open>isProcessing\<close> is set.
\<close>

theorem single_flight_flush:
  "(isProcessing b \<or> isStopped b \<longrightarrow> flush b net = (Inr (), b, []) \<and> flush_begin b = None)
   \<and> (\<not> isProcessing b \<and> \<not> isStopped b \<longrightarrow> \<not> isProcessing (fst (snd (flush b net))))
   \<and> \<not> isProcessing (fst (snd (flush_resume b events net)))
   \<and> length (in_flight (run (start cfg) tasks)) \<le> 1
   \<and> isProcessing (batcher (run (start cfg) tasks)) = (in_flight (run (start cfg) tasks) \<noteq> [])"
proof -
  have "single_flight (run (start cfg) tasks)"
    by (rule run_single_flight) (rule start_single_flight)
  then have "length (in_flight (run (start cfg) tasks)) \<le> 1"
    and "isProcessing (batcher (run (start cfg) tasks)) = (in_flight (run (start cfg) tasks) \<noteq> [])"
    by (auto simp: single_flight_def split: if_splits)
  then show ?thesis
    using flush_noop [of b net] flush_begin_None [of b] flush_clears [of b net]
      flush_resume_clears [of b events net]
    by blast
qed

theorem single_flight_flush_witness:
  "isStopped (queued_one\<lparr>isStopped := True\<rparr>)
   \<and> flush (queued_one\<lparr>isStopped := True\<rparr>) always_ok = (Inr (), queued_one\<lparr>isStopped := True\<rparr>, [])
   \<and> \<not> isProcessing queued_one \<and> \<not> isStopped queued_one
   \<and> \<not> isProcessing (fst (snd (flush queued_one always_ok)))
   \<and> in_flight (run (start sample_config) [Task_add (mk_event ''a''), Task_flush, Task_flush])
       = [[mk_event ''a'']]"
proof -
  have r: "in_flight (run (start sample_config) [Task_add (mk_event ''a''), Task_flush, Task_flush])
       = [[mk_event ''a'']]"
    by (simp add: run_def start_def add_cases flush_begin_def storage_peek_def set_storage_def
        EventBatcher_new_def startAutoFlush_def sample_config_def createQueueStorage_def
        MemoryQueueStorage_new_def storage_push_def slice0_def Let_def)
  show ?thesis
    using single_flight_flush [of "queued_one\<lparr>isStopped := True\<rparr>" always_ok]
      single_flight_flush [of queued_one always_ok "[]" sample_config
        "[Task_add (mk_event ''a''), Task_flush, Task_flush]"] r
    by (simp add: queued_one_eq)
qed

text \<open>
  Claim C7. \<open>add\<close> throws exactly when \<open>isStopped\<close> is set, and then throws the
  stopped error and changes nothing. Otherwise it returns normally with the event pushed;
  when the size then reaches \<open>batchSize\<close> it calls \<open>flush()\<close> and returns while that
  flush is suspended (if no flush was in progress, \<open>isProcessing\<close> is now set and the
  suspended flush holds its snapshot); below \<open>batchSize\<close> it starts no flush. \<open>add\<close>
  has no network argument: the network is only reached by the continuation of the flush.
\<close>

theorem add_contract:
  "((\<exists>err. fst (add b event) = Inl err) = isStopped b)
   \<and> (isStopped b \<longrightarrow> add b event = (Inl (Error_instance stopped_error), b, None))
   \<and> (\<not> isStopped b \<longrightarrow>
        fst (add b event) = Inr ()
      \<and> storage (config (fst (snd (add b event)))) = storage_push (storage (config b)) event
      \<and> isStopped (fst (snd (add b event))) = isStopped b
      \<and> (storage_size (storage_push (storage (config b)) event) \<ge> batchSize (config b) \<longrightarrow>
           (fst (snd (add b event)), snd (snd (add b event)))
             = (case flush_begin (set_storage b (storage_push (storage (config b)) event)) of
                  None \<Rightarrow> (set_storage b (storage_push (storage (config b)) event), None)
                | Some (b2, events) \<Rightarrow> (b2, Some events)))
      \<and> (storage_size (storage_push (storage (config b)) event) \<ge> batchSize (config b)
            \<and> \<not> isProcessing b \<longrightarrow>
           isProcessing (fst (snd (add b event)))
         \<and> snd (snd (add b event))
             = Some (slice0 (queue (storage_push (storage (config b)) event)) (batchSize (config b))))
      \<and> (storage_size (storage_push (storage (config b)) event) < batchSize (config b) \<longrightarrow>
           snd (snd (add b event)) = None
         \<and> isProcessing (fst (snd (add b event))) = isProcessing b))"
proof -
  have A: "(\<exists>err. fst (add b event) = Inl err) = isStopped b"
    by (auto simp: add_cases)
  have B: "isStopped b \<longrightarrow> add b event = (Inl (Error_instance stopped_error), b, None)"
    by (simp add: add_cases)
  have C: "\<not> isStopped b \<longrightarrow> fst (add b event) = Inr ()
      \<and> storage (config (fst (snd (add b event)))) = storage_push (storage (config b)) event
      \<and> isStopped (fst (snd (add b event))) = isStopped b"
    by (simp add: add_cases)
  have D: "\<not> isStopped b \<longrightarrow>
      storage_size (storage_push (storage (config b)) event) \<ge> batchSize (config b) \<longrightarrow>
           (fst (snd (add b event)), snd (snd (add b event)))
             = (case flush_begin (set_storage b (storage_push (storage (config b)) event)) of
                  None \<Rightarrow> (set_storage b (storage_push (storage (config b)) event), None)
                | Some (b2, events) \<Rightarrow> (b2, Some events))"
    by (simp add: add_def Let_def split: option.splits)
  have E: "\<not> isStopped b \<longrightarrow>
      storage_size (storage_push (storage (config b)) event) \<ge> batchSize (config b)
            \<and> \<not> isProcessing b \<longrightarrow>
           isProcessing (fst (snd (add b event)))
         \<and> snd (snd (add b event))
             = Some (slice0 (queue (storage_push (storage (config b)) event)) (batchSize (config b)))"
    by (simp add: add_cases storage_size_def)
  have F: "\<not> isStopped b \<longrightarrow>
      storage_size (storage_push (storage (config b)) event) < batchSize (config b) \<longrightarrow>
           snd (snd (add b event)) = None
         \<and> isProcessing (fst (snd (add b event))) = isProcessing b"
    by (simp add: add_cases storage_size_def)
  from A B C D E F show ?thesis by blast
qed

theorem add_contract_witness:
  "\<not> isStopped queued_one_small \<and> \<not> isProcessing queued_one_small
   \<and> storage_size (storage_push (storage (config queued_one_small)) (mk_event ''b''))
        \<ge> batchSize (config queued_one_small)
   \<and> fst (add queued_one_small (mk_event ''b'')) = Inr ()
   \<and> pending_events (fst (snd (add queued_one_small (mk_event ''b''))))
       = [mk_event ''a'', mk_event ''b'']
   \<and> snd (snd (add queued_one_small (mk_event ''b''))) = Some [mk_event ''a'', mk_event ''b'']
   \<and> isStopped (queued_one\<lparr>isStopped := True\<rparr>)
   \<and> add (queued_one\<lparr>isStopped := True\<rparr>) (mk_event ''b'')
       = (Inl (Error_instance stopped_error), queued_one\<lparr>isStopped := True\<rparr>, None)"
proof -
  have flags: "\<not> isStopped queued_one_small" "\<not> isProcessing queued_one_small"
    by (simp_all add: queued_one_small_def queued_one_eq)
  have pushed: "storage_push (storage (config queued_one_small)) (mk_event ''b'')
      = \<lparr>queue = [mk_event ''a'', mk_event ''b''], maxSize = 10000\<rparr>"
    by (simp add: queued_one_small_def queued_one_eq storage_push_def)
  have bs: "batchSize (config queued_one_small) = 2"
    by (simp add: queued_one_small_def)
  have size: "storage_size (storage_push (storage (config queued_one_small)) (mk_event ''b''))
        \<ge> batchSize (config queued_one_small)"
    unfolding pushed bs by (simp add: storage_size_def)
  have snap: "slice0 (queue (storage_push (storage (config queued_one_small)) (mk_event ''b'')))
        (batchSize (config queued_one_small)) = [mk_event ''a'', mk_event ''b'']"
    unfolding pushed bs by (simp add: slice0_def)
  have stopped: "isStopped (queued_one\<lparr>isStopped := True\<rparr>)" by simp
  from add_contract [of queued_one_small "mk_event ''b''"] flags size
  have "fst (add queued_one_small (mk_event ''b'')) = Inr ()"
    and "storage (config (fst (snd (add queued_one_small (mk_event ''b'')))))
          = storage_push (storage (config queued_one_small)) (mk_event ''b'')"
    and "snd (snd (add queued_one_small (mk_event ''b'')))
          = Some (slice0 (queue (storage_push (storage (config queued_one_small)) (mk_event ''b'')))
              (batchSize (config queued_one_small)))"
    by blast+
  moreover from add_contract [of "queued_one\<lparr>isStopped := True\<rparr>" "mk_event ''b''"] stopped
  have "add (queued_one\<lparr>isStopped := True\<rparr>) (mk_event ''b'')
       = (Inl (Error_instance stopped_error), queued_one\<lparr>isStopped := True\<rparr>, None)"
    by blast
  ultimately show ?thesis
    using flags size stopped snap by (simp add: pushed)
qed

section \<open>Partial rejection\<close>

lemma take_length_take: "take (length (take m xs)) xs = take m xs"
  by (cases "m \<le> length xs") (simp_all add: min_def)

lemma slice0_is_take: "slice0 xs n = take (length (slice0 xs n)) xs"
  by (cases "n < 0") (simp_all only: slice0_def if_True if_False take_length_take)

lemma slice0_all: "int (length xs) \<le> n \<Longrightarrow> slice0 xs n = xs"
  by (simp add: slice0_def)

lemma slice0_keeps_front:
  assumes "length xs \<le> length (slice0 q n)"
  shows "prefix xs (slice0 (xs @ drop (length (slice0 q n)) q) n)"
proof (cases "n < 0")
  case False
  then have "length xs \<le> nat n" using assms by (simp add: slice0_def)
  then show ?thesis using False by (simp add: slice0_def)
next
  case True
  define k where "k = length (slice0 q n)"
  have "nat (int (length q) + n) \<le> length q" using True by linarith
  then have k: "k = nat (int (length q) + n)" using True by (simp add: k_def slice0_def)
  have "length xs \<le> nat (int (length (xs @ drop k q)) + n)"
  proof (cases "0 \<le> int (length q) + n")
    case True
    then show ?thesis using k by simp
  next
    case False
    then have "k = 0" using k by simp
    then show ?thesis using assms by (simp add: k_def)
  qed
  then show ?thesis using True unfolding k_def [symmetric] by (simp add: slice0_def)
qed

lemma successfulIds_mem:
  "(i \<in> set (successfulIds batch res)) = (i \<in> event_id ` set batch \<and> i \<notin> rejectedIds res)"
  by (cases "errors res") (force simp: successfulIds_def rejectedIds_def find_None_iff)+

lemma remove_accepted:
  assumes "distinct (map event_id q)" and "batch = take k q"
  shows "filter (\<lambda>e. event_id e \<notin> set (successfulIds batch res)) q
           = filter (\<lambda>e. event_id e \<in> rejectedIds res) batch @ drop k q"
proof -
  have d: "distinct (map event_id (take k q) @ map event_id (drop k q))"
    using assms(1) by (metis append_take_drop_id map_append)
  have front: "filter (\<lambda>e. event_id e \<notin> set (successfulIds batch res)) (take k q)
                 = filter (\<lambda>e. event_id e \<in> rejectedIds res) batch"
    unfolding assms(2) by (rule filter_cong) (auto simp: successfulIds_mem)
  have rear: "filter (\<lambda>e. event_id e \<notin> set (successfulIds batch res)) (drop k q) = drop k q"
  proof (rule filter_True, rule ballI)
    fix e assume "e \<in> set (drop k q)"
    then have "event_id e \<notin> event_id ` set (take k q)" using d by auto
    then show "event_id e \<notin> set (successfulIds batch res)"
      by (simp add: successfulIds_mem assms(2))
  qed
  have "filter (\<lambda>e. event_id e \<notin> set (successfulIds batch res)) (take k q @ drop k q)
          = filter (\<lambda>e. event_id e \<in> rejectedIds res) batch @ drop k q"
    unfolding filter_append front rear ..
  then show ?thesis by simp
qed

lemma storage_remove_Nil [simp]: "storage_remove s [] = s"
  by (simp add: storage_remove_def)

lemma flush_success_state:
  assumes "\<not> isProcessing b" "\<not> isStopped b"
    and "batch = slice0 (pending_events b) (batchSize (config b))"
    and "sendBatch b batch net = (Inr res, tr)"
  shows "\<exists>tr'. flush b net =
     (Inr (), set_storage b (storage_remove (storage (config b)) (successfulIds batch res)), tr')"
proof (cases "batch = []")
  case True
  then have "flush b net = (Inr (), b, [])"
    using assms flush_empty by simp
  then show ?thesis using True by (simp add: successfulIds_def)
next
  case False
  have "flush b net =
     (Inr (), set_storage b (storage_remove (storage (config b)) (successfulIds batch res)), tr)"
    using assms False by (intro flush_success) simp_all
  then show ?thesis by blast
qed

lemma flush_success_queue:
  assumes "\<not> isProcessing b" "\<not> isStopped b"
    and "batch = slice0 (pending_events b) (batchSize (config b))"
    and "sendBatch b batch net = (Inr res, tr)"
  shows "pending_events (fst (snd (flush b net)))
           = filter (\<lambda>e. event_id e \<notin> set (successfulIds batch res)) (pending_events b)
       \<and> fst (flush b net) = Inr ()
       \<and> \<not> isProcessing (fst (snd (flush b net)))
       \<and> \<not> isStopped (fst (snd (flush b net)))
       \<and> config (fst (snd (flush b net)))
           = (config b)\<lparr>storage := storage (config (fst (snd (flush b net))))\<rparr>"
proof -
  from flush_success_state [OF assms] obtain tr' where
    "flush b net =
     (Inr (), set_storage b (storage_remove (storage (config b)) (successfulIds batch res)), tr')"
    by blast
  then show ?thesis using assms(1,2) by (simp add: storage_remove_def set_storage_def)
qed

text \<open>
  Claim C3. Let a flush run on a batcher that is neither processing nor stopped and whose
  queued events have distinct identifiers, and let the Transport (through the retry
  executor) return an outcome \<open>res\<close>. Then the queue afterwards is the rejected
  events of the batch, in order, followed by the events that were not part of the batch:
  a batch event is still queued exactly when \<open>res\<close> names it as rejected. When the
  whole queue went into the batch, the queue is exactly the rejected events. After a
  second flush whose outcome rejects nothing, no event of the first batch is queued any
  more, and when the whole queue went into the first batch the queue is empty.
\<close>

theorem partial_rejection:
  assumes np: "\<not> isProcessing b" and ns: "\<not> isStopped b"
    and dist: "distinct (map event_id (pending_events b))"
    and batch: "batch = slice0 (pending_events b) (batchSize (config b))"
    and out1: "sendBatch b batch net = (Inr res, tr)"
    and b': "b' = fst (snd (flush b net))"
    and batch': "batch' = slice0 (pending_events b') (batchSize (config b'))"
    and out2: "sendBatch b' batch' net' = (Inr res', tr')"
    and none: "rejectedIds res' = {}"
    and b'': "b'' = fst (snd (flush b' net'))"
  shows "pending_events b'
           = filter (\<lambda>e. event_id e \<in> rejectedIds res) batch @ drop (length batch) (pending_events b)
       \<and> (\<forall>e \<in> set batch. (e \<in> set (pending_events b')) = (event_id e \<in> rejectedIds res))
       \<and> (storage_size (storage (config b)) \<le> batchSize (config b) \<longrightarrow>
            pending_events b' = filter (\<lambda>e. event_id e \<in> rejectedIds res) (pending_events b))
       \<and> (\<forall>e \<in> set batch. e \<notin> set (pending_events b''))
       \<and> (storage_size (storage (config b)) \<le> batchSize (config b) \<longrightarrow> pending_events b'' = [])"
proof -
  define q where "q = pending_events b"
  define k where "k = length batch"
  define kept where "kept = filter (\<lambda>e. event_id e \<in> rejectedIds res) batch"
  have take: "batch = take k q"
    unfolding k_def q_def batch by (rule slice0_is_take)
  have dq: "distinct q" using dist unfolding q_def by (simp add: distinct_map)
  have disj: "set batch \<inter> set (drop k q) = {}"
    unfolding take using dq by (rule set_take_disj_set_drop_if_distinct) simp
  from flush_success_queue [OF np ns batch out1]
  have q1: "pending_events b' = filter (\<lambda>e. event_id e \<notin> set (successfulIds batch res)) q"
    and np': "\<not> isProcessing b'" and ns': "\<not> isStopped b'"
    and cfg': "config b' = (config b)\<lparr>storage := storage (config b')\<rparr>"
    unfolding b' q_def by simp_all
  have bs': "batchSize (config b') = batchSize (config b)"
    by (subst cfg') simp
  have q': "pending_events b' = kept @ drop k q"
    unfolding q1 kept_def using dist take unfolding q_def by (rule remove_accepted)
  have A: "pending_events b'
           = filter (\<lambda>e. event_id e \<in> rejectedIds res) batch @ drop (length batch) (pending_events b)"
    using q' by (simp add: kept_def k_def q_def)
  have B: "\<forall>e \<in> set batch. (e \<in> set (pending_events b')) = (event_id e \<in> rejectedIds res)"
    using disj by (auto simp: q' kept_def)
  have all: "storage_size (storage (config b)) \<le> batchSize (config b) \<Longrightarrow> batch = q"
    unfolding batch q_def storage_size_def by (rule slice0_all)
  have C: "storage_size (storage (config b)) \<le> batchSize (config b) \<longrightarrow>
            pending_events b' = filter (\<lambda>e. event_id e \<in> rejectedIds res) (pending_events b)"
  proof
    assume "storage_size (storage (config b)) \<le> batchSize (config b)"
    then have "batch = q" by (rule all)
    then show "pending_events b' = filter (\<lambda>e. event_id e \<in> rejectedIds res) (pending_events b)"
      using A by (simp add: q_def)
  qed
  from flush_success_queue [OF np' ns' batch' out2]
  have q2: "pending_events b''
      = filter (\<lambda>e. event_id e \<notin> set (successfulIds batch' res')) (pending_events b')"
    unfolding b'' by simp
  have ids': "set (successfulIds batch' res') = event_id ` set batch'"
    using none by (auto simp: successfulIds_mem)
  have "length kept \<le> length (slice0 q (batchSize (config b)))"
    unfolding kept_def batch q_def by simp
  then have "prefix kept (slice0 (kept @ drop (length (slice0 q (batchSize (config b)))) q)
                (batchSize (config b)))"
    by (rule slice0_keeps_front)
  then have pre: "prefix kept batch'"
    unfolding batch' bs' q' k_def batch q_def .
  then have sub: "set kept \<subseteq> set batch'" by (rule set_mono_prefix)
  have D: "\<forall>e \<in> set batch. e \<notin> set (pending_events b'')"
  proof
    fix e assume e: "e \<in> set batch"
    show "e \<notin> set (pending_events b'')"
    proof
      assume "e \<in> set (pending_events b'')"
      then have in': "e \<in> set (pending_events b')" and out: "event_id e \<notin> event_id ` set batch'"
        unfolding q2 ids' by simp_all
      from in' e disj have "e \<in> set kept" by (auto simp: q')
      with sub have "e \<in> set batch'" by blast
      with out show False by blast
    qed
  qed
  have E: "storage_size (storage (config b)) \<le> batchSize (config b) \<longrightarrow> pending_events b'' = []"
  proof
    assume le: "storage_size (storage (config b)) \<le> batchSize (config b)"
    then have "batch = q" by (rule all)
    then have "pending_events b' = kept" using q' by (simp add: k_def)
    moreover have "length kept \<le> length q" using \<open>batch = q\<close> by (simp add: kept_def)
    ultimately have "int (length (pending_events b')) \<le> batchSize (config b')"
      using le unfolding bs' storage_size_def q_def by simp
    then have "batch' = pending_events b'"
      unfolding batch' by (rule slice0_all)
    then show "pending_events b'' = []"
      unfolding q2 ids' by simp
  qed
  from A B C D E show ?thesis by blast
qed

lemma flush_config:
  "config (fst (snd (flush b net))) = (config b)\<lparr>storage := storage (config (fst (snd (flush b net))))\<rparr>"
  by (simp add: flush_def processBatch_def processBatch_resume_def storage_peek_def set_storage_def
      Let_def split: prod.splits sum.splits)

lemma flush_maxRetries: "maxRetries (config (fst (snd (flush b net)))) = maxRetries (config b)"
  by (subst flush_config) simp

theorem partial_rejection_witness:
  "\<not> isProcessing five_queued \<and> \<not> isStopped five_queued
   \<and> distinct (map event_id (pending_events five_queued))
   \<and> sendBatch five_queued (slice0 (pending_events five_queued) (batchSize (config five_queued)))
        reject_b_d = (Inr two_rejected, [Call_fn 0])
   \<and> rejectedIds ok_result = {}
   \<and> storage_size (storage (config five_queued)) \<le> batchSize (config five_queued)
   \<and> pending_events (fst (snd (flush five_queued reject_b_d))) = [mk_event ''b'', mk_event ''d'']
   \<and> pending_events (fst (snd (flush (fst (snd (flush five_queued reject_b_d))) always_ok))) = []"
proof -
  let ?b' = "fst (snd (flush five_queued reject_b_d))"
  let ?batch = "slice0 (pending_events five_queued) (batchSize (config five_queued))"
  let ?batch' = "slice0 (pending_events ?b') (batchSize (config ?b'))"
  have np: "\<not> isProcessing five_queued" and ns: "\<not> isStopped five_queued"
    by (simp_all add: five_queued_def)
  have dist: "distinct (map event_id (pending_events five_queued))"
    by (simp add: five_queued_def mk_event_def)
  have sb: "sendBatch five_queued ?batch reject_b_d = (Inr two_rejected, [Call_fn 0])"
    by (rule sendBatch_first_ok) (simp_all add: five_queued_def sample_config_def reject_b_d_def)
  have "0 \<le> maxRetries (config ?b')"
    by (simp add: flush_maxRetries five_queued_def sample_config_def)
  then have sb': "sendBatch ?b' ?batch' always_ok = (Inr ok_result, [Call_fn 0])"
    by (rule sendBatch_first_ok) (simp add: always_ok_def)
  have none: "rejectedIds ok_result = {}"
    by (simp add: rejectedIds_def ok_result_def)
  have size: "storage_size (storage (config five_queued)) \<le> batchSize (config five_queued)"
    by (simp add: five_queued_def storage_size_def)
  have R: "rejectedIds two_rejected = {''b'', ''d''}"
    by (simp add: rejectedIds_def two_rejected_def)
  from partial_rejection [OF np ns dist refl sb refl refl sb' none refl] size
  have "pending_events ?b' = filter (\<lambda>e. event_id e \<in> rejectedIds two_rejected) (pending_events five_queued)"
    and "pending_events (fst (snd (flush ?b' always_ok))) = []"
    by blast+
  then show ?thesis using np ns dist sb none size
    by (simp add: R five_queued_def mk_event_def)
qed

section \<open>Terminal failure of a batch\<close>



lemma filter_OnError_calls [simp]:
  "calls (tr @ [OnError e evs]) = calls tr"
  "sleeps (tr @ [OnError e evs]) = sleeps tr"
  by simp_all








section \<open>Properties of the client's constructor\<close>

lemma IdentroClient_new_ok:
  assumes "in_apiKey cfg \<noteq> []"
  shows "\<exists>c. IdentroClient_new g cfg = Inr c
     \<and> batchSize (client_config c) = num_or (in_batchSize cfg) 100
     \<and> flushInterval (client_config c) = num_or (in_flushInterval cfg) 1000
     \<and> maxRetries (client_config c) = num_or (in_maxRetries cfg) 3
     \<and> retryDelay (client_config c) = num_or (in_retryDelay cfg) 1000
     \<and> batchSize (config (client_batcher c)) = num_or (in_batchSize cfg) 100
     \<and> flushInterval (config (client_batcher c)) = num_or (in_flushInterval cfg) 1000
     \<and> maxRetries (config (client_batcher c)) = num_or (in_maxRetries cfg) 3
     \<and> retryDelay (config (client_batcher c)) = num_or (in_retryDelay cfg) 1000"
  using assms
  by (simp add: IdentroClient_new_def Let_def EventBatcher_new_def startAutoFlush_def)

lemma num_or_cases:
  "num_or v d = (case v of None \<Rightarrow> d | Some n \<Rightarrow> if n = 0 then d else n)"
  by (cases v) simp_all

text \<open>
  Claim C8, as the code has it. The constructor throws exactly when the API key is
  empty. Otherwise it builds a client whose batcher gets, for each of batch size, flush
  interval, max retries and retry delay, the default (100, 1000, 3, 1000) when the value
  is absent or 0, and the supplied value unchanged in every other case, negative values
  included.
\<close>

theorem constructor_defaults:
  "((\<exists>e. IdentroClient_new g cfg = Inl e) = (in_apiKey cfg = []))
   \<and> (in_apiKey cfg \<noteq> [] \<longrightarrow>
        (\<exists>c. IdentroClient_new g cfg = Inr c
          \<and> batchSize (config (client_batcher c))
              = (case in_batchSize cfg of None \<Rightarrow> 100 | Some n \<Rightarrow> if n = 0 then 100 else n)
          \<and> flushInterval (config (client_batcher c))
              = (case in_flushInterval cfg of None \<Rightarrow> 1000 | Some n \<Rightarrow> if n = 0 then 1000 else n)
          \<and> maxRetries (config (client_batcher c))
              = (case in_maxRetries cfg of None \<Rightarrow> 3 | Some n \<Rightarrow> if n = 0 then 3 else n)
          \<and> retryDelay (config (client_batcher c))
              = (case in_retryDelay cfg of None \<Rightarrow> 1000 | Some n \<Rightarrow> if n = 0 then 1000 else n)
          \<and> batchSize (client_config c) = batchSize (config (client_batcher c))
          \<and> flushInterval (client_config c) = flushInterval (config (client_batcher c))
          \<and> maxRetries (client_config c) = maxRetries (config (client_batcher c))
          \<and> retryDelay (client_config c) = retryDelay (config (client_batcher c))))"
proof -
  have A: "(\<exists>e. IdentroClient_new g cfg = Inl e) = (in_apiKey cfg = [])"
    by (auto simp: IdentroClient_new_def Let_def)
  have B: "in_apiKey cfg \<noteq> [] \<longrightarrow>
        (\<exists>c. IdentroClient_new g cfg = Inr c
          \<and> batchSize (config (client_batcher c))
              = (case in_batchSize cfg of None \<Rightarrow> 100 | Some n \<Rightarrow> if n = 0 then 100 else n)
          \<and> flushInterval (config (client_batcher c))
              = (case in_flushInterval cfg of None \<Rightarrow> 1000 | Some n \<Rightarrow> if n = 0 then 1000 else n)
          \<and> maxRetries (config (client_batcher c))
              = (case in_maxRetries cfg of None \<Rightarrow> 3 | Some n \<Rightarrow> if n = 0 then 3 else n)
          \<and> retryDelay (config (client_batcher c))
              = (case in_retryDelay cfg of None \<Rightarrow> 1000 | Some n \<Rightarrow> if n = 0 then 1000 else n)
          \<and> batchSize (client_config c) = batchSize (config (client_batcher c))
          \<and> flushInterval (client_config c) = flushInterval (config (client_batcher c))
          \<and> maxRetries (client_config c) = maxRetries (config (client_batcher c))
          \<and> retryDelay (client_config c) = retryDelay (config (client_batcher c)))"
  proof
    assume "in_apiKey cfg \<noteq> []"
    from IdentroClient_new_ok [OF this, of g] obtain c where
      c: "IdentroClient_new g cfg = Inr c"
        "batchSize (client_config c) = num_or (in_batchSize cfg) 100"
        "flushInterval (client_config c) = num_or (in_flushInterval cfg) 1000"
        "maxRetries (client_config c) = num_or (in_maxRetries cfg) 3"
        "retryDelay (client_config c) = num_or (in_retryDelay cfg) 1000"
        "batchSize (config (client_batcher c)) = num_or (in_batchSize cfg) 100"
        "flushInterval (config (client_batcher c)) = num_or (in_flushInterval cfg) 1000"
        "maxRetries (config (client_batcher c)) = num_or (in_maxRetries cfg) 3"
        "retryDelay (config (client_batcher c)) = num_or (in_retryDelay cfg) 1000"
      by blast
    show "\<exists>c. IdentroClient_new g cfg = Inr c
          \<and> batchSize (config (client_batcher c))
              = (case in_batchSize cfg of None \<Rightarrow> 100 | Some n \<Rightarrow> if n = 0 then 100 else n)
          \<and> flushInterval (config (client_batcher c))
              = (case in_flushInterval cfg of None \<Rightarrow> 1000 | Some n \<Rightarrow> if n = 0 then 1000 else n)
          \<and> maxRetries (config (client_batcher c))
              = (case in_maxRetries cfg of None \<Rightarrow> 3 | Some n \<Rightarrow> if n = 0 then 3 else n)
          \<and> retryDelay (config (client_batcher c))
              = (case in_retryDelay cfg of None \<Rightarrow> 1000 | Some n \<Rightarrow> if n = 0 then 1000 else n)
          \<and> batchSize (client_config c) = batchSize (config (client_batcher c))
          \<and> flushInterval (client_config c) = flushInterval (config (client_batcher c))
          \<and> maxRetries (client_config c) = maxRetries (config (client_batcher c))
          \<and> retryDelay (client_config c) = retryDelay (config (client_batcher c))"
      by (rule exI [of _ c]) (simp add: c num_or_cases)
  qed
  from A B show ?thesis by blast
qed

theorem constructor_defaults_witness:
  "in_apiKey minimal_config \<noteq> []
   \<and> (\<exists>c. IdentroClient_new ''agent-1'' minimal_config = Inr c
         \<and> batchSize (config (client_batcher c)) = 100
         \<and> flushInterval (config (client_batcher c)) = 1000
         \<and> maxRetries (config (client_batcher c)) = 3
         \<and> retryDelay (config (client_batcher c)) = 1000)"
proof -
  have k: "in_apiKey minimal_config \<noteq> []"
    and n: "in_batchSize minimal_config = None" "in_flushInterval minimal_config = None"
      "in_maxRetries minimal_config = None" "in_retryDelay minimal_config = None"
    by (simp_all add: minimal_config_def)
  from constructor_defaults [of "''agent-1''" minimal_config] k
  have "\<exists>c. IdentroClient_new ''agent-1'' minimal_config = Inr c
         \<and> batchSize (config (client_batcher c)) = 100
         \<and> flushInterval (config (client_batcher c)) = 1000
         \<and> maxRetries (config (client_batcher c)) = 3
         \<and> retryDelay (config (client_batcher c)) = 1000"
    unfolding n by auto
  with k show ?thesis by blast
qed

text \<open>
  The claim as stated says that a non-positive tunable is a configuration error at
  construction. With a batch size of -5, a flush interval of -1, -2 retries and a retry
  delay of 0 the constructor returns a client: the negative values reach the batcher and
  the 0 is replaced by the default.
\<close>

theorem constructor_accepts_nonpositive:
  "(case IdentroClient_new ''agent-1'' nonpositive_config of
      Inl e \<Rightarrow> False
    | Inr c \<Rightarrow> batchSize (config (client_batcher c)) = - 5
             \<and> flushInterval (config (client_batcher c)) = - 1
             \<and> maxRetries (config (client_batcher c)) = - 2
             \<and> retryDelay (config (client_batcher c)) = 1000)"
  by (simp add: IdentroClient_new_def nonpositive_config_def minimal_config_def Let_def
      EventBatcher_new_def startAutoFlush_def)

end
